theory Spec2Isabelle
  imports
    Complex_Main
    "HOL-Library.Multiset"
    "HOL-Library.Char_ord"
    "HOL-Library.List_Lexorder"
begin

section \<open>Exceptions\<close>

text \<open>
  Every \<^verbatim>\<open>raise\<close> of the modelled code, and every exception of a library call the code
  makes, is a value of \<open>exn\<close>; a function that can raise returns \<open>exn + 'a\<close> with \<open>Inl\<close>
  for the exception.

  \<^item> \<open>RequestException m\<close>: an instance of \<^verbatim>\<open>requests.exceptions.RequestException\<close> or of one
    of its subclasses; \<open>m\<close> identifies the exception object.
  \<^item> \<open>ValueError_missing cs\<close>: \<^verbatim>\<open>ValueError(f"Missing required columns: {missing}")\<close> of
    \<^verbatim>\<open>validate_data\<close>, \<open>cs\<close> being the set \<^verbatim>\<open>missing\<close> that the message prints.
  \<^item> \<open>KeyError_columns cs\<close>: the \<^verbatim>\<open>KeyError\<close> pandas raises when the \<^verbatim>\<open>subset\<close> of
    \<^verbatim>\<open>drop_duplicates\<close> or \<^verbatim>\<open>dropna\<close> names columns the frame does not have.
  \<^item> \<open>ValueError_sleep\<close>: \<^verbatim>\<open>time.sleep\<close> called with a negative length.
  \<^item> \<open>TypeError_raise_None\<close>: \<^verbatim>\<open>raise None\<close>.
  \<^item> \<open>OtherError c\<close>: an exception of any other class \<open>c\<close>.
\<close>

datatype exn =
    RequestException string
  | ValueError_missing "string set"
  | KeyError_columns "string set"
  | ValueError_sleep
  | TypeError_raise_None
  | OtherError string

text \<open>\<^verbatim>\<open>except requests.exceptions.RequestException as e\<close> catches exactly these.\<close>

fun is_request_exception :: "exn \<Rightarrow> bool" where
  "is_request_exception (RequestException m) = True"
| "is_request_exception e = False"


section \<open>The retry decorator (\<^verbatim>\<open>src/data/scrapers/utils.py\<close>)\<close>

text \<open>
  The wrapped function may answer differently each time it is called, so it is modelled by
  its sequence of outcomes: \<open>func k\<close> is what its invocation number \<open>k\<close> (counted from 0
  inside one call of the wrapper) returns or raises. The state of one wrapper call counts
  the invocations made and lists the arguments of \<^verbatim>\<open>time.sleep\<close> in order. Floats are
  modelled by reals, so \<^verbatim>\<open>backoff_factor ** attempt\<close> is the exact power. Log calls do not
  influence the control flow and are left out.
\<close>

record retry_state =
  calls :: nat
  sleeps :: "real list"

text \<open>
  The body of \<^verbatim>\<open>for attempt in range(max_retries + 1)\<close>, over the attempts that remain.
  When the loop runs out, \<^verbatim>\<open>raise last_exception\<close> raises the stored exception, or fails with
  a \<^verbatim>\<open>TypeError\<close> when it is still \<^verbatim>\<open>None\<close> (no iteration ran).
\<close>

fun retry_loop ::
  "int \<Rightarrow> real \<Rightarrow> (nat \<Rightarrow> exn + 'a) \<Rightarrow> nat list \<Rightarrow> exn option \<Rightarrow> retry_state
     \<Rightarrow> (exn + 'a) \<times> retry_state" where
  "retry_loop max_retries backoff_factor func [] last_exception st =
     (case last_exception of
        None \<Rightarrow> (Inl TypeError_raise_None, st)
      | Some e \<Rightarrow> (Inl e, st))"
| "retry_loop max_retries backoff_factor func (attempt # rest) last_exception st =
     (let st1 = st\<lparr>calls := calls st + 1\<rparr> in
      case func (calls st) of
        Inr v \<Rightarrow> (Inr v, st1)
      | Inl e \<Rightarrow>
          if is_request_exception e then
            (if int attempt < max_retries then
               (let delay = backoff_factor ^ attempt in
                if delay < 0 then (Inl ValueError_sleep, st1)
                else retry_loop max_retries backoff_factor func rest (Some e)
                       (st1\<lparr>sleeps := sleeps st1 @ [delay]\<rparr>))
             else retry_loop max_retries backoff_factor func rest (Some e) st1)
          else (Inl e, st1))"

text \<open>One call of \<^verbatim>\<open>retry_on_failure(max_retries, backoff_factor)(func)\<close>.\<close>

definition retry_on_failure ::
  "int \<Rightarrow> real \<Rightarrow> (nat \<Rightarrow> exn + 'a) \<Rightarrow> (exn + 'a) \<times> retry_state" where
  "retry_on_failure max_retries backoff_factor func =
     retry_loop max_retries backoff_factor func [0 ..< nat (max_retries + 1)] None
       \<lparr>calls = 0, sleeps = []\<rparr>"

text \<open>Three concrete wrapped functions, used to run the decorator.\<close>

definition always_timeout :: "nat \<Rightarrow> exn + nat" where
  "always_timeout k = Inl (RequestException ''timeout'')"

definition flaky :: "nat \<Rightarrow> exn + nat" where
  "flaky k = (if k < 2 then Inl (RequestException ''timeout'') else Inr 42)"

definition broken :: "nat \<Rightarrow> exn + nat" where
  "broken k = Inl (OtherError ''KeyError'')"


section \<open>The rate limiter (\<^verbatim>\<open>src/data/scrapers/utils.py\<close>)\<close>

text \<open>
  Times are reals (seconds). The wall clock is outside the program, so every reading of it
  is an input of the model: \<open>wait\<close> is given the clock at its first \<^verbatim>\<open>time.time()\<close> and
  what the environment decides during the call.
\<close>

record rate_limiter =
  min_delay :: real
  max_delay :: real
  last_request_time :: real

definition RateLimiter_init :: "real \<Rightarrow> real \<Rightarrow> rate_limiter" where
  "RateLimiter_init min_d max_d =
     \<lparr>min_delay = min_d, max_delay = max_d, last_request_time = 0\<rparr>"

text \<open>
  \<open>uniform\<close> is the value \<^verbatim>\<open>random.uniform(self.min_delay, self.max_delay)\<close> returns,
  \<open>overrun\<close> the time by which \<^verbatim>\<open>time.sleep\<close> oversleeps, and \<open>lag\<close> the time the other
  statements of the call take between the two clock readings.
\<close>

record wait_env =
  uniform :: real
  overrun :: real
  lag :: real

text \<open>
  \<^verbatim>\<open>RateLimiter.wait\<close>, called when the clock shows \<open>clock\<close>: the limiter afterwards, and the
  clock at the final \<^verbatim>\<open>time.time()\<close>, which is the time the call completes.
\<close>

definition wait :: "rate_limiter \<Rightarrow> real \<Rightarrow> wait_env \<Rightarrow> rate_limiter \<times> real" where
  "wait self clock env =
     (let current_time = clock;
          time_since_last = current_time - last_request_time self;
          delay = uniform env;
          clock1 = (if time_since_last < delay
                    then (let sleep_time = delay - time_since_last
                          in clock + sleep_time + overrun env)
                    else clock);
          clock2 = clock1 + lag env
      in (self\<lparr>last_request_time := clock2\<rparr>, clock2))"

text \<open>
  Consecutive calls by one thread: each call starts \<open>gap\<close> seconds after the previous one
  completed. The result lists the completion times.
\<close>

fun wait_calls :: "rate_limiter \<Rightarrow> real \<Rightarrow> (real \<times> wait_env) list \<Rightarrow> real list" where
  "wait_calls self clock [] = []"
| "wait_calls self clock ((gap, env) # rest) =
     (case wait self (clock + gap) env of
        (self', clock') \<Rightarrow> clock' # wait_calls self' clock' rest)"

text \<open>
  What the environment may do: the clock never runs backwards, a sleep lasts at least as
  long as asked, and the sample lies between the two configured delays.
\<close>

definition admissible :: "rate_limiter \<Rightarrow> real \<times> wait_env \<Rightarrow> bool" where
  "admissible self ge =
     (0 \<le> fst ge \<and> min_delay self \<le> uniform (snd ge) \<and> uniform (snd ge) \<le> max_delay self
      \<and> 0 \<le> overrun (snd ge) \<and> 0 \<le> lag (snd ge))"


section \<open>The logger factory (\<^verbatim>\<open>src/utils/logger.py\<close>)\<close>

text \<open>
  The state of the \<^verbatim>\<open>logging\<close> module that \<^verbatim>\<open>setup_logger\<close> touches: the registry of
  loggers by name, and the file system calls made for a file handler. A logger is its level
  and its handlers; a handler carries the formatter set on it.
\<close>

record formatter =
  fmt :: string
  datefmt :: string

datatype handler =
    StreamHandler string "formatter option"
  | RotatingFileHandler string int int "formatter option"

fun setFormatter :: "handler \<Rightarrow> formatter \<Rightarrow> handler" where
  "setFormatter (StreamHandler stream f) f' = StreamHandler stream (Some f')"
| "setFormatter (RotatingFileHandler path max_bytes backup_count f) f' =
     RotatingFileHandler path max_bytes backup_count (Some f')"

record logger =
  level :: nat
  handlers :: "handler list"

datatype fs_call = Mkdir_parent_of string | Open_log_file string

record logging_state =
  loggers :: "string \<rightharpoonup> logger"
  fs_calls :: "fs_call list"

text \<open>\<^verbatim>\<open>logging.getLogger(name)\<close>: the registered logger, created at level NOTSET when new.\<close>

definition getLogger :: "string \<Rightarrow> logging_state \<Rightarrow> logger \<times> logging_state" where
  "getLogger name st =
     (case loggers st name of
        Some lg \<Rightarrow> (lg, st)
      | None \<Rightarrow>
          (\<lparr>level = 0, handlers = []\<rparr>,
           st\<lparr>loggers := (loggers st)(name \<mapsto> \<lparr>level = 0, handlers = []\<rparr>)\<rparr>))"

text \<open>\<^verbatim>\<open>str.upper\<close> on ASCII text.\<close>

definition upper_char :: "char \<Rightarrow> char" where
  "upper_char c =
     (if CHR ''a'' \<le> c \<and> c \<le> CHR ''z'' then char_of (of_char c - (32::nat)) else c)"

definition upper :: "string \<Rightarrow> string" where
  "upper s = map upper_char s"

text \<open>
  \<^verbatim>\<open>logger.setLevel(getattr(logging, NAME))\<close> for an upper-case \<^verbatim>\<open>NAME\<close>: the level
  constants of the module give the level; its one other upper-case attribute is a format
  string, which \<^verbatim>\<open>setLevel\<close> refuses; any other name is no attribute.
\<close>

definition level_attr :: "string \<Rightarrow> exn + nat" where
  "level_attr name =
     (if name = ''CRITICAL'' \<or> name = ''FATAL'' then Inr 50
      else if name = ''ERROR'' then Inr 40
      else if name = ''WARNING'' \<or> name = ''WARN'' then Inr 30
      else if name = ''INFO'' then Inr 20
      else if name = ''DEBUG'' then Inr 10
      else if name = ''NOTSET'' then Inr 0
      else if name = ''BASIC_FORMAT'' then Inl (OtherError ''ValueError'')
      else Inl (OtherError ''AttributeError''))"

definition log_format :: formatter where
  "log_format =
     \<lparr>fmt = ''%(asctime)s - %(name)s - %(levelname)s - %(message)s'',
      datefmt = ''%Y-%m-%d %H:%M:%S''\<rparr>"

text \<open>
  \<^verbatim>\<open>setup_logger\<close>. Python's logger is an object of the registry, so every change to it is
  written back under its name; the logger returned is the registry's entry. An empty
  \<^verbatim>\<open>log_file\<close> is false for \<^verbatim>\<open>if log_file:\<close>, like \<^verbatim>\<open>None\<close>.
\<close>

definition setup_logger ::
  "string \<Rightarrow> string option \<Rightarrow> string \<Rightarrow> int \<Rightarrow> int \<Rightarrow> logging_state
     \<Rightarrow> (exn + logger) \<times> logging_state" where
  "setup_logger name log_file lvl max_bytes backup_count st =
     (case getLogger name st of (lg, st1) \<Rightarrow>
      case level_attr (upper lvl) of
        Inl e \<Rightarrow> (Inl e, st1)
      | Inr n \<Rightarrow>
          (let lg1 = lg\<lparr>level := n\<rparr>;
               st2 = st1\<lparr>loggers := (loggers st1)(name \<mapsto> lg1)\<rparr>
           in if handlers lg1 \<noteq> [] then (Inr lg1, st2)
              else
                (let console_handler = setFormatter (StreamHandler ''stdout'' None) log_format;
                     lg2 = lg1\<lparr>handlers := handlers lg1 @ [console_handler]\<rparr>
                 in if log_file \<noteq> None \<and> log_file \<noteq> Some []
                    then
                      (let path = the log_file;
                           file_handler =
                             setFormatter (RotatingFileHandler path max_bytes backup_count None)
                               log_format;
                           lg3 = lg2\<lparr>handlers := handlers lg2 @ [file_handler]\<rparr>
                       in (Inr lg3,
                           st2\<lparr>loggers := (loggers st2)(name \<mapsto> lg3),
                               fs_calls := fs_calls st2 @ [Mkdir_parent_of path, Open_log_file path]\<rparr>))
                    else (Inr lg2, st2\<lparr>loggers := (loggers st2)(name \<mapsto> lg2)\<rparr>))))"

text \<open>A registry in which the logger \<^verbatim>\<open>app\<close> is set up at level INFO with a console handler.\<close>

definition app_logger :: logger where
  "app_logger = \<lparr>level = 20, handlers = [StreamHandler ''stdout'' (Some log_format)]\<rparr>"

definition app_state :: logging_state where
  "app_state = \<lparr>loggers = [''app'' \<mapsto> app_logger], fs_calls = []\<rparr>"


section \<open>Tables (\<^verbatim>\<open>pandas.DataFrame\<close>)\<close>

text \<open>
  A table is its column names and its rows, each row holding one cell per column in the
  order of the columns; \<open>None\<close> is a null cell (\<^verbatim>\<open>NaN\<close>, \<^verbatim>\<open>None\<close>). Row labels are not
  modelled: rows are known by their position.
\<close>

record 'a table =
  columns :: "string list"
  rows :: "'a option list list"

fun col_index :: "string \<Rightarrow> string list \<Rightarrow> nat option" where
  "col_index c [] = None"
| "col_index c (x # xs) = (if x = c then Some 0 else map_option Suc (col_index c xs))"

text \<open>The cell of row \<open>r\<close> in column \<open>c\<close>; only read for columns the table has.\<close>

definition cell :: "string list \<Rightarrow> 'a option list \<Rightarrow> string \<Rightarrow> 'a option" where
  "cell cols r c =
     (case col_index c cols of
        None \<Rightarrow> None
      | Some i \<Rightarrow> if i < length r then r ! i else None)"

text \<open>\<^verbatim>\<open>DataFrame.empty\<close>: some axis has length 0.\<close>

definition empty_table :: "'a table \<Rightarrow> bool" where
  "empty_table df = (rows df = [] \<or> columns df = [])"

text \<open>
  \<^verbatim>\<open>keep='first'\<close>: a row is dropped when its key was seen in an earlier row. Null cells
  count as equal to each other, as pandas has it.
\<close>

fun keep_first :: "('r \<Rightarrow> 'k) \<Rightarrow> 'k list \<Rightarrow> 'r list \<Rightarrow> 'r list" where
  "keep_first key seen [] = []"
| "keep_first key seen (r # rs) =
     (if key r \<in> set seen then keep_first key seen rs
      else r # keep_first key (key r # seen) rs)"

text \<open>
  \<^verbatim>\<open>df.drop_duplicates(subset=subset, keep='first')\<close>: pandas returns a copy of an empty
  frame at once, raises \<^verbatim>\<open>KeyError\<close> for a subset column the frame lacks, and otherwise
  keeps the first row of each key.
\<close>

definition drop_duplicates :: "'a table \<Rightarrow> string list \<Rightarrow> exn + 'a table" where
  "drop_duplicates df subset' =
     (if empty_table df then Inr df
      else if set subset' - set (columns df) \<noteq> {}
      then Inl (KeyError_columns (set subset' - set (columns df)))
      else Inr (df\<lparr>rows := keep_first (\<lambda>r. map (cell (columns df) r) subset') [] (rows df)\<rparr>))"

text \<open>
  \<^verbatim>\<open>df.dropna(subset=subset)\<close>: \<^verbatim>\<open>KeyError\<close> for a subset column the frame lacks, otherwise
  the rows with no null cell in the subset columns.
\<close>

definition dropna :: "'a table \<Rightarrow> string list \<Rightarrow> exn + 'a table" where
  "dropna df subset' =
     (if set subset' - set (columns df) \<noteq> {}
      then Inl (KeyError_columns (set subset' - set (columns df)))
      else Inr (df\<lparr>rows :=
                  filter (\<lambda>r. list_all (\<lambda>c. cell (columns df) r c \<noteq> None) subset') (rows df)\<rparr>))"


section \<open>Library functions taken as parameters\<close>

text \<open>
  The functions of the Python library that the code calls and whose results the properties
  below do not depend on are parameters of the model: the MD5 hex digest, \<^verbatim>\<open>str\<close> and
  \<^verbatim>\<open>repr\<close> of a keyword value and \<^verbatim>\<open>repr\<close> of a string, \<^verbatim>\<open>strftime("%Y%m")\<close> of a clock
  reading, and the CSV writer and reader of pandas. \<open>'v\<close> is the type of keyword values,
  \<open>'a\<close> the type of table cells. Strings are byte strings (UTF-8), whose order is the
  order of Python's strings.
\<close>

record ('v, 'a) pylib =
  md5_hexdigest :: "string \<Rightarrow> string"
  str_value :: "'v \<Rightarrow> string"
  repr_value :: "'v \<Rightarrow> string"
  repr_str :: "string \<Rightarrow> string"
  strftime_Ym :: "int \<Rightarrow> string"
  to_csv :: "'a table \<Rightarrow> string"
  read_csv :: "string \<Rightarrow> exn + 'a table"

text \<open>\<^verbatim>\<open>sep.join(xs)\<close>.\<close>

fun join :: "string \<Rightarrow> string list \<Rightarrow> string" where
  "join sep [] = []"
| "join sep [x] = x"
| "join sep (x # y # ys) = x @ sep @ join sep (y # ys)"

text \<open>
  \<^verbatim>\<open>sorted(kwargs.items())\<close>: the keys of a dictionary are distinct, so the comparison of
  two items is decided by their keys.
\<close>

definition sorted_items :: "(string \<times> 'v) list \<Rightarrow> (string \<times> 'v) list" where
  "sorted_items kwargs = sort_key fst kwargs"

text \<open>\<^verbatim>\<open>str\<close> of a tuple of values and of a list of (key, value) pairs.\<close>

definition str_tuple :: "('v, 'a) pylib \<Rightarrow> 'v list \<Rightarrow> string" where
  "str_tuple L args =
     (case args of
        [x] \<Rightarrow> ''('' @ repr_value L x @ '',)''
      | _ \<Rightarrow> ''('' @ join '', '' (map (repr_value L) args) @ '')'')"

definition str_items :: "('v, 'a) pylib \<Rightarrow> (string \<times> 'v) list \<Rightarrow> string" where
  "str_items L items =
     ''['' @ join '', '' (map (\<lambda>(k, v). ''('' @ repr_str L k @ '', '' @ repr_value L v @ '')'') items)
       @ '']''"


section \<open>Cache keys\<close>

text \<open>
  Keyword arguments are the list of (name, value) pairs in the order the caller wrote
  them, which is the order of \<^verbatim>\<open>kwargs.items()\<close>.

  \<^verbatim>\<open>generate_cache_key\<close> of \<^verbatim>\<open>src/utils/helpers.py\<close>:
\<close>

definition generate_cache_key :: "('v, 'a) pylib \<Rightarrow> 'v list \<Rightarrow> (string \<times> 'v) list \<Rightarrow> string" where
  "generate_cache_key L args kwargs =
     (let key_string = str_tuple L args @ ''_'' @ str_items L (sorted_items kwargs)
      in md5_hexdigest L key_string)"

text \<open>\<^verbatim>\<open>str.lower\<close> on ASCII text.\<close>

definition lower_char :: "char \<Rightarrow> char" where
  "lower_char c =
     (if CHR ''A'' \<le> c \<and> c \<le> CHR ''Z'' then char_of (of_char c + (32::nat)) else c)"

definition lower :: "string \<Rightarrow> string" where
  "lower s = map lower_char s"


section \<open>The base scraper (\<^verbatim>\<open>src/data/scrapers/base_scraper.py\<close>)\<close>

text \<open>
  A concrete scraper is its class name, the three settings of \<^verbatim>\<open>__init__\<close> and its two
  abstract methods. The remote source may answer differently each time, so
  \<open>fetch_data self kwargs n\<close> is the outcome of the invocation of \<^verbatim>\<open>fetch_data(**kwargs)\<close> that
  \<open>n\<close> invocations came before. Log calls are left out.
\<close>

record ('v, 'raw, 'a) scraper =
  class_name :: string
  cache_dir :: string
  cache_enabled :: bool
  cache_ttl_days :: int
  fetch_data :: "(string \<times> 'v) list \<Rightarrow> nat \<Rightarrow> exn + 'raw"
  parse_response :: "'raw \<Rightarrow> exn + 'a table"

text \<open>
  The world outside the scraper: the clock (\<^verbatim>\<open>datetime.now()\<close>, in microseconds, the
  resolution of \<^verbatim>\<open>datetime\<close>), the files of the cache directory with their modification
  times, the number of invocations of \<^verbatim>\<open>fetch_data\<close> so far, and the paths that were read
  with \<^verbatim>\<open>pd.read_csv\<close>. The clock is set by whoever makes the calls; within one call it
  stands still.
\<close>

record cache_file =
  mtime :: int
  content :: string

record world =
  now :: int
  files :: "string \<rightharpoonup> cache_file"
  fetch_calls :: nat
  csv_reads :: "string list"

definition usec_per_day :: int where
  "usec_per_day = 86400000000"

text \<open>\<^verbatim>\<open>self.cache_dir / f"{cache_key}.csv"\<close>\<close>

definition cache_path :: "('v, 'raw, 'a) scraper \<Rightarrow> string \<Rightarrow> string" where
  "cache_path self cache_key = cache_dir self @ ''/'' @ cache_key @ ''.csv''"

text \<open>
  \<^verbatim>\<open>(datetime.now() - datetime.fromtimestamp(cache_file.stat().st_mtime)).days\<close>: the days
  of a \<^verbatim>\<open>timedelta\<close> are the difference divided by one day, rounded down.
\<close>

definition file_age_days :: "world \<Rightarrow> cache_file \<Rightarrow> int" where
  "file_age_days w f = (now w - mtime f) div usec_per_day"

definition get_cached_data ::
  "('v, 'a) pylib \<Rightarrow> ('v, 'raw, 'a) scraper \<Rightarrow> string \<Rightarrow> world
     \<Rightarrow> (exn + 'a table option) \<times> world" where
  "get_cached_data L self cache_key w =
     (if \<not> cache_enabled self then (Inr None, w)
      else
        (let cache_file = cache_path self cache_key in
         case files w cache_file of
           None \<Rightarrow> (Inr None, w)
         | Some f \<Rightarrow>
             if file_age_days w f > cache_ttl_days self then (Inr None, w)
             else
               (case read_csv L (content f) of
                  Inl e \<Rightarrow> (Inl e, w\<lparr>csv_reads := csv_reads w @ [cache_file]\<rparr>)
                | Inr df \<Rightarrow> (Inr (Some df), w\<lparr>csv_reads := csv_reads w @ [cache_file]\<rparr>))))"

definition save_to_cache ::
  "('v, 'a) pylib \<Rightarrow> ('v, 'raw, 'a) scraper \<Rightarrow> 'a table \<Rightarrow> string \<Rightarrow> world \<Rightarrow> world" where
  "save_to_cache L self data cache_key w =
     (if \<not> cache_enabled self then w
      else
        (let cache_file = cache_path self cache_key in
         w\<lparr>files := (files w)(cache_file \<mapsto> \<lparr>mtime = now w, content = to_csv L data\<rparr>)\<rparr>))"

definition validate_data :: "'a table \<Rightarrow> string list \<Rightarrow> exn + 'a table" where
  "validate_data df required_columns =
     (let missing = set required_columns - set (columns df) in
      if missing \<noteq> {} then Inl (ValueError_missing missing)
      else
        (case drop_duplicates df [''address''] of
           Inl e \<Rightarrow> Inl e
         | Inr df1 \<Rightarrow> dropna df1 required_columns))"

text \<open>\<^verbatim>\<open>BaseScraper.generate_cache_key\<close>, called when the clock shows \<open>clock\<close>.\<close>

definition scraper_generate_cache_key ::
  "('v, 'a) pylib \<Rightarrow> ('v, 'raw, 'a) scraper \<Rightarrow> int \<Rightarrow> (string \<times> 'v) list \<Rightarrow> string" where
  "scraper_generate_cache_key L self clock kwargs =
     (let key_string = join ''_'' (map (\<lambda>(k, v). k @ ''='' @ str_value L v) (sorted_items kwargs));
          key_hash = take 12 (md5_hexdigest L key_string);
          timestamp = strftime_Ym L clock
      in lower (class_name self) @ ''_'' @ timestamp @ ''_'' @ key_hash)"

definition scrape ::
  "('v, 'a) pylib \<Rightarrow> ('v, 'raw, 'a) scraper \<Rightarrow> bool \<Rightarrow> (string \<times> 'v) list \<Rightarrow> world
     \<Rightarrow> (exn + 'a table) \<times> world" where
  "scrape L self use_cache kwargs w =
     (let cache_key = scraper_generate_cache_key L self (now w) kwargs in
      case (if use_cache then get_cached_data L self cache_key w else (Inr None, w)) of
        (Inl e, w1) \<Rightarrow> (Inl e, w1)
      | (Inr (Some cached), w1) \<Rightarrow> (Inr cached, w1)
      | (Inr None, w1) \<Rightarrow>
          (let w2 = w1\<lparr>fetch_calls := fetch_calls w1 + 1\<rparr> in
           case fetch_data self kwargs (fetch_calls w1) of
             Inl e \<Rightarrow> (Inl e, w2)
           | Inr raw_response \<Rightarrow>
               (case parse_response self raw_response of
                  Inl e \<Rightarrow> (Inl e, w2)
                | Inr df \<Rightarrow> (Inr df, save_to_cache L self df cache_key w2))))"

text \<open>
  A sequence of \<^verbatim>\<open>scrape\<close> calls on one scraper, each made when the clock shows the given
  time: the results in order, and the world afterwards.
\<close>

fun scrape_calls ::
  "('v, 'a) pylib \<Rightarrow> ('v, 'raw, 'a) scraper \<Rightarrow> (int \<times> bool \<times> (string \<times> 'v) list) list \<Rightarrow> world
     \<Rightarrow> (exn + 'a table) list \<times> world" where
  "scrape_calls L self [] w = ([], w)"
| "scrape_calls L self ((clock, use_cache, kwargs) # rest) w =
     (case scrape L self use_cache kwargs (w\<lparr>now := clock\<rparr>) of
        (r, w1) \<Rightarrow>
          (case scrape_calls L self rest w1 of
             (rs, w2) \<Rightarrow> (r # rs, w2)))"


section \<open>Concrete inputs\<close>

text \<open>
  Concrete library functions, tables and a concrete scraper, on which the model is run.
  The theorems hold for every choice of the library functions; these ones are simple
  enough to evaluate: the decimal \<^verbatim>\<open>str\<close> of an integer, the year and month of a clock
  reading in UTC, comma-separated text without quoting, and the identity in place of the
  digest.
\<close>

definition digit_char :: "int \<Rightarrow> char" where
  "digit_char d = ''0123456789'' ! nat d"

function str_digits :: "int \<Rightarrow> string" where
  "str_digits i =
     (if i < 10 then [digit_char i] else str_digits (i div 10) @ [digit_char (i mod 10)])"
  by pat_completeness auto
termination
  by (relation "measure nat") auto

declare str_digits.simps [simp del]

definition str_int :: "int \<Rightarrow> string" where
  "str_int i = (if i < 0 then ''-'' @ str_digits (- i) else str_digits i)"

definition utc_year_month :: "int \<Rightarrow> int \<times> int" where
  "utc_year_month t =
     (let z = t div usec_per_day + 719468;
          era = z div 146097;
          doe = z mod 146097;
          yoe = (doe - doe div 1460 + doe div 36524 - doe div 146096) div 365;
          doy = doe - (365 * yoe + yoe div 4 - yoe div 100);
          mp = (5 * doy + 2) div 153;
          m = (if mp < 10 then mp + 3 else mp - 9);
          y = yoe + era * 400 + (if m \<le> 2 then 1 else 0)
      in (y, m))"

definition strftime_Ym_utc :: "int \<Rightarrow> string" where
  "strftime_Ym_utc t =
     (case utc_year_month t of
        (y, m) \<Rightarrow> str_int y @ (if m < 10 then ''0'' else []) @ str_int m)"

fun split_acc :: "char \<Rightarrow> string \<Rightarrow> string \<Rightarrow> string list" where
  "split_acc sep cur [] = [rev cur]"
| "split_acc sep cur (c # cs) =
     (if c = sep then rev cur # split_acc sep [] cs else split_acc sep (c # cur) cs)"

definition split_on :: "char \<Rightarrow> string \<Rightarrow> string list" where
  "split_on sep s = split_acc sep [] s"

definition csv_text :: "string table \<Rightarrow> string" where
  "csv_text df =
     join [CHR 0x0A]
       (map (join '','') (columns df # map (map (case_option [] id)) (rows df)))"

definition csv_table :: "string \<Rightarrow> exn + string table" where
  "csv_table s =
     (case map (split_on CHR '','') (split_on (CHR 0x0A) s) of
        [] \<Rightarrow> Inl (OtherError ''EmptyDataError'')
      | header # body \<Rightarrow>
          Inr \<lparr>columns = header,
               rows = map (map (\<lambda>x. if x = [] then None else Some x)) body\<rparr>)"

definition quote :: "string \<Rightarrow> string" where
  "quote s = [CHR 0x27] @ s @ [CHR 0x27]"

definition demo_lib :: "(int, string) pylib" where
  "demo_lib =
     \<lparr>md5_hexdigest = (\<lambda>s. s),
      str_value = str_int,
      repr_value = str_int,
      repr_str = quote,
      strftime_Ym = strftime_Ym_utc,
      to_csv = csv_text,
      read_csv = csv_table\<rparr>"

text \<open>Tables of listings.\<close>

definition price_only :: "string table" where
  "price_only = \<lparr>columns = [''price''], rows = [[Some ''450000'']]\<rparr>"

definition listings :: "string table" where
  "listings =
     \<lparr>columns = [''address'', ''price''],
      rows = [[Some ''123 Main St'', Some ''450000''],
              [Some ''9 Elm St'', None],
              [Some ''123 Main St'', Some ''460000''],
              [Some ''77 Oak Ave'', Some ''390000'']]\<rparr>"

definition null_first :: "string table" where
  "null_first =
     \<lparr>columns = [''address'', ''price''],
      rows = [[Some ''123 Main St'', None],
              [Some ''123 Main St'', Some ''450000'']]\<rparr>"

text \<open>
  A scraper whose source answers with a different price each time it is asked: invocation
  \<open>n\<close> of \<^verbatim>\<open>fetch_data\<close> returns \<open>450000 + n\<close>, which \<^verbatim>\<open>parse_response\<close> turns into a
  one-row table.
\<close>

definition listing :: "int \<Rightarrow> string table" where
  "listing price =
     \<lparr>columns = [''address'', ''price''], rows = [[Some ''123 Main St'', Some (str_int price)]]\<rparr>"

definition demo_scraper :: "(int, int, string) scraper" where
  "demo_scraper =
     \<lparr>class_name = ''RedfinScraper'',
      cache_dir = ''data/raw'',
      cache_enabled = True,
      cache_ttl_days = 7,
      fetch_data = (\<lambda>kwargs n. Inr (450000 + int n)),
      parse_response = (\<lambda>raw. Inr (listing raw))\<rparr>"

text \<open>The first microsecond of 1 January 2024 (UTC), and a world with an empty cache.\<close>

definition jan_1_2024 :: int where
  "jan_1_2024 = 1704067200000000"



text \<open>
  The 8th, the 9th and the 16th of January 2024 and the last microsecond of December
  2023; the keyword arguments of a scrape by ZIP code and
  the cache key they get in January 2024; the world after a first scrape on 1 January; and
  the same scraper with caching switched off.
\<close>

definition jan_8_2024 :: int where
  "jan_8_2024 = jan_1_2024 + 7 * usec_per_day"

definition jan_9_2024 :: int where
  "jan_9_2024 = jan_1_2024 + 8 * usec_per_day"

definition jan_16_2024 :: int where
  "jan_16_2024 = jan_1_2024 + 15 * usec_per_day"

definition dec_31_2023 :: int where
  "dec_31_2023 = jan_1_2024 - 1"

definition zip_kwargs :: "(string \<times> int) list" where
  "zip_kwargs = [(''zip_code'', 75001)]"

definition zip_key :: string where
  "zip_key = ''redfinscraper_202401_zip_code=750''"

definition warm_world :: world where
  "warm_world =
     \<lparr>now = jan_1_2024,
      files = [cache_path demo_scraper zip_key \<mapsto>
                 \<lparr>mtime = jan_1_2024, content = csv_text (listing 450000)\<rparr>],
      fetch_calls = 1,
      csv_reads = []\<rparr>"

definition disabled_scraper :: "(int, int, string) scraper" where
  "disabled_scraper = demo_scraper\<lparr>cache_enabled := False\<rparr>"


section \<open>Properties\<close>

subsection \<open>Properties of the retry decorator\<close>

lemma retry_loop_all_fail:
  assumes "\<forall>k. \<exists>e. func k = Inl e \<and> is_request_exception e" and "0 \<le> bf" and "as \<noteq> []"
  shows "retry_loop mr bf func as lst st =
           (func (calls st + length as - 1),
            \<lparr>calls = calls st + length as,
             sleeps = sleeps st @ map (\<lambda>a. bf ^ a) (filter (\<lambda>a. int a < mr) as)\<rparr>)"
  using assms(3)
proof (induction as arbitrary: lst st)
  case Nil
  then show ?case by simp
next
  case (Cons a as)
  obtain e where e: "func (calls st) = Inl e" "is_request_exception e"
    using assms(1) by blast
  have nn: "\<not> bf < 0" using assms(2) by simp
  show ?case
  proof (cases "as = []")
    case True
    then show ?thesis using e nn by (simp add: Let_def)
  next
    case False
    then show ?thesis using e nn Cons.IH by (simp add: Let_def)
  qed
qed

lemma retry_loop_last_call:
  "retry_loop mr bf func as lst st = (r, st') \<Longrightarrow> calls st \<le> k \<Longrightarrow> k < calls st'
     \<Longrightarrow> func k = Inr v \<Longrightarrow> r = Inr v \<and> calls st' = Suc k"
proof (induction as arbitrary: lst st)
  case Nil
  then show ?case by (auto split: option.splits)
next
  case (Cons a as)
  show ?case
  proof (cases "func (calls st)")
    case (Inr v')
    with Cons.prems have "k = calls st" by (auto simp: Let_def)
    with Inr Cons.prems show ?thesis by (auto simp: Let_def)
  next
    case (Inl e)
    with Cons.prems have ne: "k \<noteq> calls st" by auto
    with Cons.prems have le: "calls (st\<lparr>calls := calls st + 1\<rparr>) \<le> k" by simp
    show ?thesis
      using Cons.prems Inl le Cons.IH
      by (auto simp: Let_def split: if_splits)
  qed
qed

text \<open>
  Claim C2 (retry exhaustion). A function that raises a transient network error on every
  invocation, wrapped with \<^verbatim>\<open>retry_on_failure(max_retries=3)\<close> (the backoff factor at its
  default 2.0), is invoked exactly 4 times, after sleeps of 1, 2 and 4 seconds, and the
  wrapper then raises the very exception of the fourth, last invocation.
\<close>

theorem retry_exhaustion_four_calls:
  assumes "\<forall>k. \<exists>e. func k = Inl e \<and> is_request_exception e"
  shows "retry_on_failure 3 2 func = (func 3, \<lparr>calls = 4, sleeps = [1, 2, 4]\<rparr>)
     \<and> (\<exists>e. func 3 = Inl e \<and> is_request_exception e)"
proof -
  let ?as = "[0 ..< nat (3 + 1)]"
  have ne: "?as \<noteq> []" by simp
  have len: "length ?as = 4" by simp
  have flt: "map (\<lambda>a. (2::real) ^ a) (filter (\<lambda>a. int a < 3) ?as) = [1, 2, 4]"
    by (simp add: upt_rec)
  have "retry_loop 3 2 func ?as None \<lparr>calls = 0, sleeps = []\<rparr> =
          (func (calls \<lparr>calls = 0, sleeps = []\<rparr> + length ?as - 1),
           \<lparr>calls = calls \<lparr>calls = 0, sleeps = []\<rparr> + length ?as,
            sleeps = sleeps \<lparr>calls = 0, sleeps = []\<rparr> @
                       map (\<lambda>a. 2 ^ a) (filter (\<lambda>a. int a < 3) ?as)\<rparr>)"
    by (rule retry_loop_all_fail [OF assms _ ne]) simp
  then have "retry_on_failure 3 2 func = (func 3, \<lparr>calls = 4, sleeps = [1, 2, 4]\<rparr>)"
    unfolding retry_on_failure_def len flt by simp
  then show ?thesis using assms by simp
qed

theorem retry_exhaustion_four_calls_witness:
  "retry_on_failure 3 2 always_timeout =
     (Inl (RequestException ''timeout''), \<lparr>calls = 4, sleeps = [1, 2, 4]\<rparr>)"
proof -
  have h: "\<forall>k. \<exists>e. always_timeout k = Inl e \<and> is_request_exception e"
    by (simp add: always_timeout_def)
  have v: "always_timeout 3 = Inl (RequestException ''timeout'')"
    by (simp add: always_timeout_def)
  from retry_exhaustion_four_calls [OF h] v show ?thesis by simp
qed

lemma retry_loop_success:
  assumes "\<forall>j<k. \<exists>e. func (calls st + j) = Inl e \<and> is_request_exception e"
    and "func (calls st + k) = Inr v"
    and "k < length as"
    and "\<forall>a\<in>set (take k as). int a < mr"
    and "0 \<le> bf"
  shows "retry_loop mr bf func as lst st =
           (Inr v, \<lparr>calls = calls st + Suc k, sleeps = sleeps st @ map (\<lambda>a. bf ^ a) (take k as)\<rparr>)"
  using assms(1-4)
proof (induction k arbitrary: as lst st)
  case 0
  then obtain a as' where "as = a # as'" by (cases as) auto
  with 0 show ?case by simp
next
  case (Suc k)
  then obtain a as' where as: "as = a # as'" by (cases as) auto
  obtain e where e: "func (calls st) = Inl e" "is_request_exception e"
    using Suc.prems(1) by force
  have a: "int a < mr" using Suc.prems(4) as by simp
  have nn: "\<not> bf < 0" using assms(5) by simp
  let ?st = "st\<lparr>calls := calls st + 1, sleeps := sleeps st @ [bf ^ a]\<rparr>"
  have 1: "\<forall>j<k. \<exists>e. func (calls ?st + j) = Inl e \<and> is_request_exception e"
    using Suc.prems(1) by (auto dest: spec [of _ "Suc j" for j])
  have 2: "func (calls ?st + k) = Inr v" using Suc.prems(2) by simp
  have 3: "k < length as'" using Suc.prems(3) as by simp
  have 4: "\<forall>a\<in>set (take k as'). int a < mr" using Suc.prems(4) as by simp
  from Suc.IH [OF 1 2 3 4, of "Some e"] e a nn as show ?case
    by (simp add: Let_def)
qed

lemma retry_on_failure_success:
  assumes "\<forall>j<k. \<exists>e. func j = Inl e \<and> is_request_exception e"
    and "func k = Inr v" and "int k \<le> max_retries" and "0 \<le> backoff_factor"
  shows "retry_on_failure max_retries backoff_factor func =
           (Inr v, \<lparr>calls = Suc k, sleeps = map (\<lambda>a. backoff_factor ^ a) [0 ..< k]\<rparr>)"
proof -
  let ?as = "[0 ..< nat (max_retries + 1)]"
  have l: "k < length ?as" using assms(3) by simp
  have t: "take k ?as = [0 ..< k]" using assms(3) by (simp add: take_upt)
  have b: "\<forall>a\<in>set (take k ?as). int a < max_retries" using assms(3) by (auto simp: t)
  from retry_loop_success [of k func "\<lparr>calls = 0, sleeps = []\<rparr>" v ?as max_retries backoff_factor None]
       assms l b t
  show ?thesis by (simp add: retry_on_failure_def)
qed

text \<open>
  Claim C3 (other errors propagate, values are returned unchanged). First part: when the
  wrapper makes a first call (\<open>0 \<le> max_retries\<close>) and that call raises an exception that is
  not a transient network error, the wrapper raises that exception after this one
  invocation and without any sleep. Second part: whenever an invocation the wrapper makes
  (number \<open>k\<close>, so \<open>k\<close> is below the final invocation count) returns a value, that invocation
  is the last one and the wrapper returns that value unchanged. Third part: the wrapper
  does reach such an invocation: when the invocations before number \<open>k \<le> max_retries\<close>
  all raise transient network errors, invocation \<open>k\<close> returns a value and the backoff
  factor is not negative, the wrapper returns that value after \<open>k + 1\<close> invocations and the
  \<open>k\<close> backoff sleeps.
\<close>

theorem retry_propagates_and_returns:
  "(0 \<le> max_retries \<and> func 0 = Inl e \<and> \<not> is_request_exception e \<longrightarrow>
      retry_on_failure max_retries backoff_factor func = (Inl e, \<lparr>calls = 1, sleeps = []\<rparr>))
   \<and> (func k = Inr v \<and> k < calls (snd (retry_on_failure max_retries backoff_factor func)) \<longrightarrow>
      fst (retry_on_failure max_retries backoff_factor func) = Inr v
      \<and> calls (snd (retry_on_failure max_retries backoff_factor func)) = Suc k)
   \<and> ((\<forall>j<k. \<exists>e'. func j = Inl e' \<and> is_request_exception e') \<and> func k = Inr v
        \<and> int k \<le> max_retries \<and> 0 \<le> backoff_factor \<longrightarrow>
      retry_on_failure max_retries backoff_factor func =
        (Inr v, \<lparr>calls = Suc k, sleeps = map (\<lambda>a. backoff_factor ^ a) [0 ..< k]\<rparr>))"
proof -
  have p1: "0 \<le> max_retries \<and> func 0 = Inl e \<and> \<not> is_request_exception e \<longrightarrow>
      retry_on_failure max_retries backoff_factor func = (Inl e, \<lparr>calls = 1, sleeps = []\<rparr>)"
  proof
    assume a: "0 \<le> max_retries \<and> func 0 = Inl e \<and> \<not> is_request_exception e"
    then have "[0 ..< nat (max_retries + 1)] = 0 # [Suc 0 ..< nat (max_retries + 1)]"
      by (simp add: upt_rec)
    with a show "retry_on_failure max_retries backoff_factor func =
        (Inl e, \<lparr>calls = 1, sleeps = []\<rparr>)"
      by (simp add: retry_on_failure_def)
  qed
  have p2: "func k = Inr v \<and> k < calls (snd (retry_on_failure max_retries backoff_factor func)) \<longrightarrow>
      fst (retry_on_failure max_retries backoff_factor func) = Inr v
      \<and> calls (snd (retry_on_failure max_retries backoff_factor func)) = Suc k"
  proof
    assume b: "func k = Inr v \<and> k < calls (snd (retry_on_failure max_retries backoff_factor func))"
    obtain r st' where run: "retry_on_failure max_retries backoff_factor func = (r, st')"
      by (cases "retry_on_failure max_retries backoff_factor func")
    then have "retry_loop max_retries backoff_factor func [0 ..< nat (max_retries + 1)] None
        \<lparr>calls = 0, sleeps = []\<rparr> = (r, st')"
      by (simp add: retry_on_failure_def)
    from retry_loop_last_call [OF this, of k v] b run
    show "fst (retry_on_failure max_retries backoff_factor func) = Inr v
        \<and> calls (snd (retry_on_failure max_retries backoff_factor func)) = Suc k"
      by simp
  qed
  have p3: "(\<forall>j<k. \<exists>e'. func j = Inl e' \<and> is_request_exception e') \<and> func k = Inr v
        \<and> int k \<le> max_retries \<and> 0 \<le> backoff_factor \<longrightarrow>
      retry_on_failure max_retries backoff_factor func =
        (Inr v, \<lparr>calls = Suc k, sleeps = map (\<lambda>a. backoff_factor ^ a) [0 ..< k]\<rparr>)"
    using retry_on_failure_success [of k func v max_retries backoff_factor] by blast
  from p1 p2 p3 show ?thesis by blast
qed

theorem retry_propagates_and_returns_witness:
  "retry_on_failure 3 2 broken = (Inl (OtherError ''KeyError''), \<lparr>calls = 1, sleeps = []\<rparr>)
   \<and> flaky 2 = Inr 42
   \<and> retry_on_failure 3 2 flaky = (Inr 42, \<lparr>calls = 3, sleeps = [1, 2]\<rparr>)"
proof -
  have f: "flaky 2 = Inr 42"
    by (simp add: flaky_def)
  have h1: "(0::int) \<le> 3 \<and> broken 0 = Inl (OtherError ''KeyError'')
            \<and> \<not> is_request_exception (OtherError ''KeyError'')"
    by (simp add: broken_def)
  have h3: "(\<forall>j<2. \<exists>e'. flaky j = Inl e' \<and> is_request_exception e') \<and> flaky 2 = Inr 42
            \<and> int 2 \<le> 3 \<and> (0::real) \<le> 2"
    by (simp add: flaky_def)
  have u: "map (\<lambda>a. (2::real) ^ a) [0 ..< 2] = [1, 2]"
    by (simp add: upt_rec)
  from retry_propagates_and_returns [of 3 broken "OtherError ''KeyError''" 2 0 0] h1
  have p1: "retry_on_failure 3 2 broken = (Inl (OtherError ''KeyError''), \<lparr>calls = 1, sleeps = []\<rparr>)"
    by blast
  from retry_propagates_and_returns [of 3 flaky "OtherError ''unused''" 2 2 42] h3
  have "retry_on_failure 3 2 flaky =
          (Inr 42, \<lparr>calls = Suc 2, sleeps = map (\<lambda>a. (2::real) ^ a) [0 ..< 2]\<rparr>)"
    by blast
  then have p3: "retry_on_failure 3 2 flaky = (Inr 42, \<lparr>calls = 3, sleeps = [1, 2]\<rparr>)"
    by (simp only: u) simp
  from p1 f p3 show ?thesis by blast
qed

subsection \<open>Properties of the rate limiter\<close>

lemma wait_keeps_delays:
  "min_delay (fst (wait self clock env)) = min_delay self"
  "max_delay (fst (wait self clock env)) = max_delay self"
  by (simp_all add: wait_def Let_def)

lemma wait_records_completion:
  "last_request_time (fst (wait self clock env)) = snd (wait self clock env)"
  by (simp add: wait_def Let_def)

lemma wait_lower:
  assumes "admissible self (gap, env)" and "last_request_time self = clock"
  shows "clock + min_delay self \<le> snd (wait self (clock + gap) env)"
  using assms by (auto simp: admissible_def wait_def Let_def)

lemma wait_calls_spaced:
  assumes "list_all (admissible self) es" and "last_request_time self = clock"
  shows "successively (\<lambda>a b. a + min_delay self \<le> b) (clock # wait_calls self clock es)"
  using assms
proof (induction es arbitrary: self clock)
  case Nil
  then show ?case by simp
next
  case (Cons ge es)
  obtain gap env where ge: "ge = (gap, env)" by (cases ge)
  obtain self' clock' where w: "wait self (clock + gap) env = (self', clock')"
    by (cases "wait self (clock + gap) env")
  have m: "min_delay self' = min_delay self" "max_delay self' = max_delay self"
    using w wait_keeps_delays [of self "clock + gap" env] by simp_all
  have l: "last_request_time self' = clock'"
    using w wait_records_completion [of self "clock + gap" env] by simp
  have lo: "clock + min_delay self \<le> clock'"
    using w wait_lower [of self gap env clock] Cons.prems ge by simp
  have "list_all (admissible self') es"
    using Cons.prems(1) m by (simp add: list_all_iff admissible_def)
  from Cons.IH [OF this l] m lo ge w show ?case by simp
qed

text \<open>
  Claim C9 (rate limiter lower bound). For a limiter with \<open>min_delay \<le> max_delay\<close> and any
  sequence of consecutive \<^verbatim>\<open>wait()\<close> calls by one thread, over a clock that never runs
  backwards and a sleep that lasts at least as long as asked, the completion times of any
  two consecutive calls are at least \<open>min_delay\<close> apart. The state of the limiter before the
  first call is arbitrary.
\<close>

theorem wait_calls_min_delay:
  assumes "min_delay self \<le> max_delay self"
    and "list_all (admissible self) es"
    and "Suc i < length (wait_calls self clock es)"
  shows "wait_calls self clock es ! i + min_delay self \<le> wait_calls self clock es ! Suc i"
proof (cases es)
  case Nil
  with assms(3) show ?thesis by simp
next
  case (Cons ge rest)
  obtain gap env where ge: "ge = (gap, env)" by (cases ge)
  obtain self' clock' where w: "wait self (clock + gap) env = (self', clock')"
    by (cases "wait self (clock + gap) env")
  have m: "min_delay self' = min_delay self" "max_delay self' = max_delay self"
    using w wait_keeps_delays [of self "clock + gap" env] by simp_all
  have l: "last_request_time self' = clock'"
    using w wait_records_completion [of self "clock + gap" env] by simp
  have "list_all (admissible self') rest"
    using assms(2) Cons m by (simp add: list_all_iff admissible_def)
  from wait_calls_spaced [OF this l]
  have "successively (\<lambda>a b. a + min_delay self \<le> b) (wait_calls self clock es)"
    using Cons ge w m by simp
  with assms(3) show ?thesis by (simp add: successively_conv_nth)
qed

theorem wait_calls_min_delay_witness:
  "wait_calls (RateLimiter_init 2 4) 100
     [(0, \<lparr>uniform = 3, overrun = 0, lag = 0\<rparr>), (1, \<lparr>uniform = 2, overrun = 1 / 2, lag = 0\<rparr>)]
     = [100, 205 / 2]
   \<and> (100::real) + 2 \<le> 205 / 2"
proof -
  let ?es = "[(0, \<lparr>uniform = 3, overrun = 0, lag = 0\<rparr>),
              (1, \<lparr>uniform = 2, overrun = 1 / 2, lag = 0\<rparr>)]"
  have run: "wait_calls (RateLimiter_init 2 4) 100 ?es = [100, 205 / 2]"
    by (simp add: RateLimiter_init_def wait_def Let_def)
  have h1: "min_delay (RateLimiter_init 2 4) \<le> max_delay (RateLimiter_init 2 4)"
    by (simp add: RateLimiter_init_def)
  have h2: "list_all (admissible (RateLimiter_init 2 4)) ?es"
    by (simp add: RateLimiter_init_def admissible_def)
  have h3: "Suc 0 < length (wait_calls (RateLimiter_init 2 4) 100 ?es)"
    unfolding run by simp
  from wait_calls_min_delay [OF h1 h2 h3] run show ?thesis
    by (simp add: RateLimiter_init_def)
qed

subsection \<open>Properties of the logger factory\<close>

lemma upper_debug: "upper ''debug'' = ''DEBUG''"
  by code_simp

text \<open>
  Claim C8 as stated (a logger that already has handlers is returned unchanged, level
  included) fails: \<^verbatim>\<open>setLevel\<close> runs before the handlers are looked at. The logger \<^verbatim>\<open>app\<close>
  has a handler and level INFO (20); \<^verbatim>\<open>setup_logger("app", level="debug")\<close> returns it at
  level DEBUG (10).
\<close>

theorem setup_logger_changes_level:
  "loggers app_state ''app'' = Some app_logger
   \<and> handlers app_logger \<noteq> []
   \<and> level app_logger = 20
   \<and> setup_logger ''app'' None ''debug'' 10485760 5 app_state =
       (Inr (app_logger\<lparr>level := 10\<rparr>),
        app_state\<lparr>loggers := [''app'' \<mapsto> app_logger\<lparr>level := 10\<rparr>]\<rparr>)
   \<and> app_logger\<lparr>level := 10\<rparr> \<noteq> app_logger"
  by (simp add: setup_logger_def getLogger_def app_state_def app_logger_def upper_debug
      level_attr_def Let_def)

text \<open>
  Claim C8, amended. If the logger registered under the name already has handlers, then
  \<^verbatim>\<open>setup_logger\<close> adds no handler and makes no file system call, whatever the other
  arguments are; it sets the level of that logger to the level named and changes nothing
  else (first part). When the level argument names no level, the call raises and the state
  is unchanged (second part).
\<close>

theorem setup_logger_existing_handlers:
  assumes "loggers st name = Some lg" and "handlers lg \<noteq> []"
  shows "(level_attr (upper lvl) = Inr n \<longrightarrow>
            setup_logger name log_file lvl max_bytes backup_count st =
              (Inr (lg\<lparr>level := n\<rparr>), st\<lparr>loggers := (loggers st)(name \<mapsto> lg\<lparr>level := n\<rparr>)\<rparr>))
       \<and> (level_attr (upper lvl) = Inl e \<longrightarrow>
            setup_logger name log_file lvl max_bytes backup_count st = (Inl e, st))"
  using assms by (simp add: setup_logger_def getLogger_def Let_def)

theorem setup_logger_existing_handlers_witness:
  "setup_logger ''app'' (Some ''logs/avm.log'') ''debug'' 10485760 5 app_state =
     (Inr \<lparr>level = 10, handlers = [StreamHandler ''stdout'' (Some log_format)]\<rparr>,
      \<lparr>loggers = [''app'' \<mapsto> \<lparr>level = 10, handlers = [StreamHandler ''stdout'' (Some log_format)]\<rparr>],
       fs_calls = []\<rparr>)"
proof -
  have h1: "loggers app_state ''app'' = Some app_logger"
    by (simp add: app_state_def)
  have h2: "handlers app_logger \<noteq> []"
    by (simp add: app_logger_def)
  have h3: "level_attr (upper ''debug'') = Inr 10"
    by (simp add: upper_debug level_attr_def)
  from setup_logger_existing_handlers [OF h1 h2, of "''debug''" 10] h3
  show ?thesis by (simp add: app_state_def app_logger_def)
qed

subsection \<open>Properties of the cache keys\<close>

lemma sorted_items_perm:
  assumes "mset kw1 = mset kw2" and "distinct (map fst kw1)"
  shows "sorted_items kw1 = sorted_items kw2"
proof -
  let ?X1 = "sort_key fst kw1" and ?X2 = "sort_key fst kw2"
  have m: "mset ?X1 = mset ?X2" using assms(1) by simp
  then have s: "set ?X1 = set ?X2" by (rule mset_eq_setD)
  have mk: "mset (map fst ?X1) = mset (map fst ?X2)" using m by (metis mset_map)
  have "mset (map fst ?X1) = mset (map fst kw1)" by (metis mset_map mset_sort)
  then have d1: "distinct (map fst ?X1)" using assms(2) by (metis mset_eq_imp_distinct_iff)
  then have d2: "distinct (map fst ?X2)" using mk by (metis mset_eq_imp_distinct_iff)
  have sk: "set (map fst ?X1) = set (map fst ?X2)" using s by simp
  have "map fst ?X1 = map fst ?X2"
    using sorted_sort_key d1 sorted_sort_key d2 sk by (rule sorted_distinct_set_unique)
  moreover have "inj_on fst (set ?X1 \<union> set ?X2)"
    using d1 s by (simp add: distinct_map)
  ultimately have "?X1 = ?X2" by (rule map_inj_on)
  then show ?thesis by (simp add: sorted_items_def)
qed

text \<open>
  Claim C7 as stated (the method of \<^verbatim>\<open>BaseScraper\<close> gives the same key for both orders of
  the keyword arguments) fails: the method stamps the key with the year and month it
  reads from the clock at each call. The call with \<^verbatim>\<open>a=1, b=2\<close> is made in the last
  microsecond of December 2023 and the call with \<^verbatim>\<open>b=2, a=1\<close> one microsecond later.
\<close>

theorem cache_key_differs_across_months:
  "mset [(''a'', 1::int), (''b'', 2)] = mset [(''b'', 2), (''a'', 1)]
   \<and> distinct (map fst [(''a'', 1::int), (''b'', 2)])
   \<and> jan_1_2024 = dec_31_2023 + 1
   \<and> scraper_generate_cache_key demo_lib demo_scraper dec_31_2023 [(''a'', 1), (''b'', 2)] =
       ''redfinscraper_202312_a=1_b=2''
   \<and> scraper_generate_cache_key demo_lib demo_scraper jan_1_2024 [(''b'', 2), (''a'', 1)] =
       ''redfinscraper_202401_a=1_b=2''
   \<and> scraper_generate_cache_key demo_lib demo_scraper dec_31_2023 [(''a'', 1), (''b'', 2)] \<noteq>
       scraper_generate_cache_key demo_lib demo_scraper jan_1_2024 [(''b'', 2), (''a'', 1)]"
proof -
  have s: "sorted_items [(''b'', 2::int), (''a'', 1)] = [(''a'', 1), (''b'', 2)]"
    "sorted_items [(''a'', 1::int), (''b'', 2)] = [(''a'', 1), (''b'', 2)]"
    by code_simp+
  have t: "strftime_Ym_utc jan_1_2024 = ''202401''" "strftime_Ym_utc dec_31_2023 = ''202312''"
    by code_simp+
  have l: "lower ''RedfinScraper'' = ''redfinscraper''"
    by code_simp
  have v: "str_int 1 = ''1''" "str_int 2 = ''2''"
    by code_simp+
  have k1: "scraper_generate_cache_key demo_lib demo_scraper dec_31_2023 [(''a'', 1), (''b'', 2)] =
       ''redfinscraper_202312_a=1_b=2''"
    by (simp add: scraper_generate_cache_key_def demo_lib_def demo_scraper_def s t l v)
  have k2: "scraper_generate_cache_key demo_lib demo_scraper jan_1_2024 [(''b'', 2), (''a'', 1)] =
       ''redfinscraper_202401_a=1_b=2''"
    by (simp add: scraper_generate_cache_key_def demo_lib_def demo_scraper_def s t l v)
  show ?thesis
    unfolding k1 k2 by (simp add: dec_31_2023_def)
qed

text \<open>
  Claim C7, amended (cache-key order-independence). Two keyword-argument lists that hold
  the same (name, value) pairs in different orders, the names being distinct as the keys
  of a dictionary are, give the same key: for the helper of \<^verbatim>\<open>helpers.py\<close> always (with
  the same positional arguments), and for the method of \<^verbatim>\<open>BaseScraper\<close> (on the same
  scraper) whenever the two calls are made at clock readings of the same year and month.
\<close>

theorem cache_key_order_independent:
  assumes "mset kw1 = mset kw2" and "distinct (map fst kw1)"
  shows "generate_cache_key L args kw1 = generate_cache_key L args kw2
       \<and> (strftime_Ym L t1 = strftime_Ym L t2 \<longrightarrow>
            scraper_generate_cache_key L self t1 kw1 = scraper_generate_cache_key L self t2 kw2)"
  using sorted_items_perm [OF assms]
  by (simp add: generate_cache_key_def scraper_generate_cache_key_def)

theorem cache_key_order_independent_witness:
  "generate_cache_key demo_lib [] [(''a'', 1), (''b'', 2)] =
     generate_cache_key demo_lib [] [(''b'', 2), (''a'', 1)]
   \<and> strftime_Ym demo_lib jan_1_2024 = strftime_Ym demo_lib jan_8_2024
   \<and> scraper_generate_cache_key demo_lib demo_scraper jan_1_2024 [(''a'', 1), (''b'', 2)] =
     scraper_generate_cache_key demo_lib demo_scraper jan_8_2024 [(''b'', 2), (''a'', 1)]
   \<and> scraper_generate_cache_key demo_lib demo_scraper jan_8_2024 [(''b'', 2), (''a'', 1)] =
     ''redfinscraper_202401_a=1_b=2''"
proof -
  have h1: "mset [(''a'', 1::int), (''b'', 2)] = mset [(''b'', 2), (''a'', 1)]"
    by simp
  have h2: "distinct (map fst [(''a'', 1::int), (''b'', 2)])"
    by simp
  have s: "sorted_items [(''b'', 2::int), (''a'', 1)] = [(''a'', 1), (''b'', 2)]"
    by code_simp
  have t: "strftime_Ym_utc jan_1_2024 = ''202401''" "strftime_Ym_utc jan_8_2024 = ''202401''"
    by code_simp+
  have h3: "strftime_Ym demo_lib jan_1_2024 = strftime_Ym demo_lib jan_8_2024"
    by (simp add: demo_lib_def t)
  have l: "lower ''RedfinScraper'' = ''redfinscraper''"
    by code_simp
  have v: "str_int 1 = ''1''" "str_int 2 = ''2''"
    by code_simp+
  have run: "scraper_generate_cache_key demo_lib demo_scraper jan_8_2024 [(''b'', 2), (''a'', 1)] =
     ''redfinscraper_202401_a=1_b=2''"
    by (simp add: scraper_generate_cache_key_def demo_lib_def demo_scraper_def s t l v)
  from cache_key_order_independent
         [OF h1 h2, of demo_lib "[]" jan_1_2024 jan_8_2024 demo_scraper] h3 run
  show ?thesis by blast
qed


subsection \<open>Properties of \<^verbatim>\<open>validate_data\<close>\<close>

lemma keep_first_keys:
  "distinct (map key (keep_first key seen rs)) \<and> key ` set (keep_first key seen rs) \<inter> set seen = {}"
proof (induction rs arbitrary: seen)
  case Nil
  then show ?case by simp
next
  case (Cons r rs)
  from Cons.IH [of seen] Cons.IH [of "key r # seen"] show ?case by auto
qed

lemma keep_first_nth:
  "keep_first key seen rs =
     map ((!) rs)
       (filter (\<lambda>i. key (rs ! i) \<notin> set seen \<and> (\<forall>j<i. key (rs ! j) \<noteq> key (rs ! i)))
          [0 ..< length rs])"
proof (induction rs arbitrary: seen)
  case Nil
  then show ?case by simp
next
  case (Cons r rs)
  let ?P = "\<lambda>sn xs i. key (xs ! i) \<notin> set sn \<and> (\<forall>j<i. key (xs ! j) \<noteq> key (xs ! i))"
  have up: "[0 ..< length (r # rs)] = 0 # map Suc [0 ..< length rs]"
    by (simp add: upt_conv_Cons map_Suc_upt del: upt_Suc)
  have shift: "map ((!) (r # rs)) (filter (?P seen (r # rs)) (map Suc [0 ..< length rs])) =
               map ((!) rs) (filter (\<lambda>i. ?P seen (r # rs) (Suc i)) [0 ..< length rs])"
    by (simp add: filter_map comp_def)
  have suc: "?P seen (r # rs) (Suc i) \<longleftrightarrow>
             key (rs ! i) \<notin> set seen \<and> key r \<noteq> key (rs ! i) \<and> (\<forall>j<i. key (rs ! j) \<noteq> key (rs ! i))" for i
    by (auto simp: less_Suc_eq_0_disj)
  show ?case
  proof (cases "key r \<in> set seen")
    case True
    have "filter (\<lambda>i. ?P seen (r # rs) (Suc i)) [0 ..< length rs] = filter (?P seen rs) [0 ..< length rs]"
      by (rule filter_cong [OF refl]) (use True suc in auto)
    with True Cons.IH [of seen] shift show ?thesis
      unfolding up by simp
  next
    case False
    have "filter (\<lambda>i. ?P seen (r # rs) (Suc i)) [0 ..< length rs] = filter (?P (key r # seen) rs) [0 ..< length rs]"
      by (rule filter_cong [OF refl]) (use suc in auto)
    with False Cons.IH [of "key r # seen"] shift show ?thesis
      unfolding up by simp
  qed
qed

lemma validate_data_rows:
  assumes "set req \<subseteq> set (columns df)" and "''address'' \<in> set (columns df)"
  shows "validate_data df req =
           Inr (df\<lparr>rows := filter (\<lambda>r. list_all (\<lambda>c. cell (columns df) r c \<noteq> None) req)
                          (keep_first (\<lambda>r. [cell (columns df) r ''address'']) [] (rows df))\<rparr>)"
proof -
  have m: "set req - set (columns df) = {}" using assms(1) by auto
  have c: "columns df \<noteq> []" using assms(2) by auto
  show ?thesis
  proof (cases "rows df = []")
    case True
    then have "df\<lparr>rows := []\<rparr> = df" by simp
    with True m show ?thesis
      by (simp add: validate_data_def drop_duplicates_def dropna_def empty_table_def)
  next
    case False
    with m c assms(2) show ?thesis
      by (simp add: validate_data_def drop_duplicates_def dropna_def empty_table_def)
  qed
qed

text \<open>
  Claim C5 as stated (with all required columns present, \<^verbatim>\<open>validate_data\<close> returns the
  cleaned table without raising) fails: the duplicates are dropped by the column
  \<^verbatim>\<open>address\<close> whether it is required or not, and pandas raises \<^verbatim>\<open>KeyError\<close> when a table
  with rows has no such column. Here the one required column \<^verbatim>\<open>price\<close> is present.
\<close>

theorem validate_data_missing_address:
  "set [''price''] \<subseteq> set (columns price_only)
   \<and> validate_data price_only [''price''] = Inl (KeyError_columns {''address''})"
  by (simp add: price_only_def validate_data_def drop_duplicates_def empty_table_def)

text \<open>
  Claim C5, amended. \<^verbatim>\<open>validate_data\<close> fails with the schema error, whose message prints
  the set of missing columns, if and only if some required column is absent (first and
  second part); and when all required columns are present and the table has an
  \<^verbatim>\<open>address\<close> column, or is empty, it returns a table without raising (third part).
\<close>

theorem validate_data_schema_error:
  "(\<not> set req \<subseteq> set (columns df) \<longrightarrow>
      validate_data df req = Inl (ValueError_missing (set req - set (columns df)))
      \<and> set req - set (columns df) \<noteq> {})
   \<and> (set req \<subseteq> set (columns df) \<longrightarrow> (\<forall>cs. validate_data df req \<noteq> Inl (ValueError_missing cs)))
   \<and> (set req \<subseteq> set (columns df) \<and> (''address'' \<in> set (columns df) \<or> empty_table df) \<longrightarrow>
        (\<exists>df'. validate_data df req = Inr df'))"
proof (intro conjI impI)
  assume a: "\<not> set req \<subseteq> set (columns df)"
  then show "set req - set (columns df) \<noteq> {}" by auto
  then show "validate_data df req = Inl (ValueError_missing (set req - set (columns df)))"
    by (simp add: validate_data_def)
next
  assume a: "set req \<subseteq> set (columns df)"
  then have m: "set req - set (columns df) = {}" by auto
  show "\<forall>cs. validate_data df req \<noteq> Inl (ValueError_missing cs)"
    using m by (simp add: validate_data_def drop_duplicates_def dropna_def split: sum.splits)
next
  assume a: "set req \<subseteq> set (columns df) \<and> (''address'' \<in> set (columns df) \<or> empty_table df)"
  then have m: "set req - set (columns df) = {}" by auto
  from a show "\<exists>df'. validate_data df req = Inr df'"
    using m by (auto simp: validate_data_def drop_duplicates_def dropna_def)
qed

theorem validate_data_schema_error_witness:
  "validate_data price_only [''address'', ''price''] = Inl (ValueError_missing {''address''})
   \<and> validate_data listings [''address'', ''price''] =
       Inr (listings\<lparr>rows := [[Some ''123 Main St'', Some ''450000''],
                               [Some ''77 Oak Ave'', Some ''390000'']]\<rparr>)"
proof -
  have e1: "set [''address'', ''price''] - set (columns price_only) = {''address''}"
    by (auto simp: price_only_def)
  have h1: "\<not> set [''address'', ''price''] \<subseteq> set (columns price_only)"
    by (simp add: price_only_def)
  have h2: "set [''address'', ''price''] \<subseteq> set (columns listings)
            \<and> (''address'' \<in> set (columns listings) \<or> empty_table listings)"
    by (simp add: listings_def)
  have run: "validate_data listings [''address'', ''price''] =
       Inr (listings\<lparr>rows := [[Some ''123 Main St'', Some ''450000''],
                               [Some ''77 Oak Ave'', Some ''390000'']]\<rparr>)"
    by (simp add: listings_def validate_data_def drop_duplicates_def dropna_def empty_table_def
        cell_def)
  from validate_data_schema_error [of "[''address'', ''price'']" price_only] h1 e1
       validate_data_schema_error [of "[''address'', ''price'']" listings] h2 run
  show ?thesis by simp
qed

text \<open>
  Claim C6 as stated (of two rows sharing an address exactly one is retained, the first)
  fails: duplicates are dropped before the rows with nulls are, so when the first
  occurrence has a null in a required column it goes too, and no row with that address
  is left.
\<close>

theorem validate_data_first_occurrence_null:
  "set [''address'', ''price''] \<subseteq> set (columns null_first)
   \<and> validate_data null_first [''address'', ''price''] = Inr (null_first\<lparr>rows := []\<rparr>)"
  by (simp add: null_first_def validate_data_def drop_duplicates_def dropna_def empty_table_def
      cell_def)

text \<open>
  Claim C6, amended. For a table that has all required columns and an \<^verbatim>\<open>address\<close> column,
  \<^verbatim>\<open>validate_data\<close> returns a table with the same columns in which no two rows share an
  address and no row has a null in a required column; its rows are exactly, in their
  order, the input rows that are the first occurrence of their address and have no null
  in a required column. So of the input rows sharing an address only the first can be
  retained, and it is retained exactly when it has no null in a required column.
\<close>

theorem validate_data_result:
  assumes "set req \<subseteq> set (columns df)" and "''address'' \<in> set (columns df)"
  shows "\<exists>df'. validate_data df req = Inr df'
     \<and> columns df' = columns df
     \<and> distinct (map (\<lambda>r. cell (columns df') r ''address'') (rows df'))
     \<and> (\<forall>r\<in>set (rows df'). \<forall>c\<in>set req. cell (columns df') r c \<noteq> None)
     \<and> rows df' =
         map ((!) (rows df))
           (filter
              (\<lambda>i. (\<forall>j<i. cell (columns df) (rows df ! j) ''address''
                             \<noteq> cell (columns df) (rows df ! i) ''address'')
                   \<and> (\<forall>c\<in>set req. cell (columns df) (rows df ! i) c \<noteq> None))
              [0 ..< length (rows df)])"
proof -
  let ?addr = "\<lambda>r. cell (columns df) r ''address''"
  let ?key = "\<lambda>r. [?addr r]"
  let ?ok = "\<lambda>r. list_all (\<lambda>c. cell (columns df) r c \<noteq> None) req"
  let ?kept = "keep_first ?key [] (rows df)"
  let ?df' = "df\<lparr>rows := filter ?ok ?kept\<rparr>"
  have v: "validate_data df req = Inr ?df'"
    using assms by (rule validate_data_rows)
  have "distinct (map ?key ?kept)"
    using keep_first_keys [of ?key "[]" "rows df"] by simp
  then have "distinct (map ?addr ?kept)"
    by (auto simp: distinct_map inj_on_def)
  then have d: "distinct (map ?addr (filter ?ok ?kept))"
    by (rule distinct_map_filter)
  have n: "\<forall>r\<in>set (filter ?ok ?kept). \<forall>c\<in>set req. cell (columns df) r c \<noteq> None"
    by (simp add: list_all_iff)
  have "?kept = map ((!) (rows df))
           (filter (\<lambda>i. \<forall>j<i. ?addr (rows df ! j) \<noteq> ?addr (rows df ! i)) [0 ..< length (rows df)])"
    using keep_first_nth [of ?key "[]" "rows df"] by simp
  then have p: "filter ?ok ?kept =
         map ((!) (rows df))
           (filter
              (\<lambda>i. (\<forall>j<i. ?addr (rows df ! j) \<noteq> ?addr (rows df ! i))
                   \<and> (\<forall>c\<in>set req. cell (columns df) (rows df ! i) c \<noteq> None))
              [0 ..< length (rows df)])"
    by (simp add: filter_map comp_def list_all_iff)
  from v d n p show ?thesis by simp
qed

theorem validate_data_result_witness:
  "validate_data listings [''address'', ''price''] =
       Inr (listings\<lparr>rows := [[Some ''123 Main St'', Some ''450000''],
                               [Some ''77 Oak Ave'', Some ''390000'']]\<rparr>)
   \<and> rows listings ! 0 = [Some ''123 Main St'', Some ''450000'']
   \<and> rows listings ! 3 = [Some ''77 Oak Ave'', Some ''390000'']"
proof -
  have h1: "set [''address'', ''price''] \<subseteq> set (columns listings)"
    by (simp add: listings_def)
  have h2: "''address'' \<in> set (columns listings)"
    by (simp add: listings_def)
  have run: "validate_data listings [''address'', ''price''] =
       Inr (listings\<lparr>rows := [[Some ''123 Main St'', Some ''450000''],
                               [Some ''77 Oak Ave'', Some ''390000'']]\<rparr>)"
    by (simp add: listings_def validate_data_def drop_duplicates_def dropna_def empty_table_def
        cell_def)
  from validate_data_result [OF h1 h2] run show ?thesis
    by (simp add: listings_def)
qed

subsection \<open>Properties of the cache and of \<^verbatim>\<open>scrape\<close>\<close>


lemma january_ages:
  "(jan_1_2024 - jan_1_2024) div usec_per_day = 0"
  "(jan_8_2024 - jan_1_2024) div usec_per_day = 7"
  "(jan_9_2024 - jan_1_2024) div usec_per_day = 8"
  "(jan_16_2024 - jan_1_2024) div usec_per_day = 15"
  by (simp_all add: jan_8_2024_def jan_9_2024_def jan_16_2024_def usec_per_day_def)

lemma csv_roundtrip_listing:
  "csv_table (csv_text (listing 450000)) = Inr (listing 450000)"
  by code_simp


lemma demo_lib_fields:
  "read_csv demo_lib = csv_table" "to_csv demo_lib = csv_text"
  "strftime_Ym demo_lib = strftime_Ym_utc"
  by (simp_all add: demo_lib_def)

lemma demo_scraper_fields:
  "cache_enabled demo_scraper" "cache_ttl_days demo_scraper = 7"
  "fetch_data demo_scraper kwargs n = Inr (450000 + int n)"
  "parse_response demo_scraper raw = Inr (listing raw)"
  by (simp_all add: demo_scraper_def)

lemma disabled_scraper_fields:
  "\<not> cache_enabled disabled_scraper" "cache_ttl_days disabled_scraper = 7"
  "cache_path disabled_scraper k = cache_path demo_scraper k"
  by (simp_all add: disabled_scraper_def demo_scraper_def cache_path_def)


lemma scrape_hit:
  assumes "cache_enabled self"
    and "files w (cache_path self (scraper_generate_cache_key L self (now w) kwargs)) = Some f"
    and "file_age_days w f \<le> cache_ttl_days self"
    and "read_csv L (content f) = Inr df"
  shows "scrape L self True kwargs w =
           (Inr df,
            w\<lparr>csv_reads := csv_reads w
                @ [cache_path self (scraper_generate_cache_key L self (now w) kwargs)]\<rparr>)"
proof -
  have "get_cached_data L self (scraper_generate_cache_key L self (now w) kwargs) w =
          (Inr (Some df),
           w\<lparr>csv_reads := csv_reads w
               @ [cache_path self (scraper_generate_cache_key L self (now w) kwargs)]\<rparr>)"
    using assms by (simp add: get_cached_data_def Let_def)
  then show ?thesis
    by (simp add: scrape_def Let_def)
qed



lemma scrape_disabled:
  assumes "\<not> cache_enabled self"
  shows "snd (scrape L self use_cache kwargs w) = w\<lparr>fetch_calls := fetch_calls w + 1\<rparr>"
  using assms
  by (simp add: scrape_def get_cached_data_def save_to_cache_def Let_def split: sum.splits)

lemma scrape_calls_disabled:
  assumes "\<not> cache_enabled self"
  shows "fetch_calls (snd (scrape_calls L self cs w)) = fetch_calls w + length cs
       \<and> files (snd (scrape_calls L self cs w)) = files w
       \<and> csv_reads (snd (scrape_calls L self cs w)) = csv_reads w"
proof (induction cs arbitrary: w)
  case Nil
  then show ?case by simp
next
  case (Cons c cs)
  obtain clock use_cache kwargs where c: "c = (clock, use_cache, kwargs)"
    by (cases c)
  let ?w0 = "w\<lparr>now := clock\<rparr>"
  obtain r w1 where s: "scrape L self use_cache kwargs ?w0 = (r, w1)"
    by (cases "scrape L self use_cache kwargs ?w0")
  have w1: "w1 = ?w0\<lparr>fetch_calls := fetch_calls ?w0 + 1\<rparr>"
    using scrape_disabled [OF assms, of L use_cache kwargs ?w0] s by simp
  have f: "fetch_calls w1 = fetch_calls w + 1" "files w1 = files w" "csv_reads w1 = csv_reads w"
    by (simp_all add: w1)
  have "snd (scrape_calls L self (c # cs) w) = snd (scrape_calls L self cs w1)"
    by (simp add: c s split: prod.splits)
  with Cons.IH [of w1] f show ?case by simp
qed

text \<open>
  Claim C4 as stated (for every cache key and TTL, the cached table is returned exactly
  when the file exists and its age in whole days is at most the TTL) fails for a scraper
  with caching switched off: the file exists, is 0 days old against a TTL of 7 and holds
  a table, and \<^verbatim>\<open>get_cached_data\<close> returns the absent result.
\<close>

theorem get_cached_data_disabled_ignores_file:
  "files warm_world (cache_path disabled_scraper zip_key) =
     Some \<lparr>mtime = jan_1_2024, content = csv_text (listing 450000)\<rparr>
   \<and> file_age_days warm_world \<lparr>mtime = jan_1_2024, content = csv_text (listing 450000)\<rparr> = 0
   \<and> cache_ttl_days disabled_scraper = 7
   \<and> read_csv demo_lib (csv_text (listing 450000)) = Inr (listing 450000)
   \<and> get_cached_data demo_lib disabled_scraper zip_key warm_world = (Inr None, warm_world)"
  by (simp add: disabled_scraper_fields demo_lib_fields csv_roundtrip_listing warm_world_def
      file_age_days_def get_cached_data_def january_ages)

text \<open>
  Claim C4, amended. For a scraper with caching enabled, every cache key and every TTL:
  \<^verbatim>\<open>get_cached_data\<close> returns a table exactly when the cache file exists, its age in whole
  days is at most the TTL and \<^verbatim>\<open>pd.read_csv\<close> reads that table from it (first part); a file
  whose age is exactly the TTL is fresh, so the result is what reading it gives (second
  part); a file one day older is stale and the result is absent (third part); and
  whenever there is no file of age at most the TTL the result is absent (fourth part).
\<close>

theorem get_cached_data_fresh:
  assumes "cache_enabled self"
  shows "(fst (get_cached_data L self cache_key w) = Inr (Some df) \<longleftrightarrow>
            (\<exists>f. files w (cache_path self cache_key) = Some f
                 \<and> file_age_days w f \<le> cache_ttl_days self
                 \<and> read_csv L (content f) = Inr df))
       \<and> (files w (cache_path self cache_key) = Some f \<and> file_age_days w f = cache_ttl_days self \<longrightarrow>
            fst (get_cached_data L self cache_key w) = map_sum id Some (read_csv L (content f)))
       \<and> (files w (cache_path self cache_key) = Some f \<and> file_age_days w f = cache_ttl_days self + 1 \<longrightarrow>
            get_cached_data L self cache_key w = (Inr None, w))
       \<and> (\<not> (\<exists>g. files w (cache_path self cache_key) = Some g
                  \<and> file_age_days w g \<le> cache_ttl_days self) \<longrightarrow>
            get_cached_data L self cache_key w = (Inr None, w))"
  using assms
  by (auto simp: get_cached_data_def Let_def split: option.splits sum.splits)

theorem get_cached_data_fresh_witness:
  "fst (get_cached_data demo_lib demo_scraper zip_key
          (warm_world\<lparr>now := jan_8_2024\<rparr>)) = Inr (Some (listing 450000))
   \<and> get_cached_data demo_lib demo_scraper zip_key
          (warm_world\<lparr>now := jan_9_2024\<rparr>) =
        (Inr None, warm_world\<lparr>now := jan_9_2024\<rparr>)"
proof -
  let ?f = "\<lparr>mtime = jan_1_2024, content = csv_text (listing 450000)\<rparr>"
  let ?w7 = "warm_world\<lparr>now := jan_8_2024\<rparr>"
  let ?w8 = "warm_world\<lparr>now := jan_9_2024\<rparr>"
  have e: "cache_enabled demo_scraper"
    by (rule demo_scraper_fields)
  have a7: "files ?w7 (cache_path demo_scraper zip_key) = Some ?f
            \<and> file_age_days ?w7 ?f = cache_ttl_days demo_scraper"
    by (simp add: warm_world_def file_age_days_def demo_scraper_fields january_ages)
  have a8: "files ?w8 (cache_path demo_scraper zip_key) = Some ?f
            \<and> file_age_days ?w8 ?f = cache_ttl_days demo_scraper + 1"
    by (simp add: warm_world_def file_age_days_def demo_scraper_fields january_ages)
  have r: "map_sum id Some (read_csv demo_lib (content ?f)) = Inr (Some (listing 450000))"
    by (simp add: demo_lib_fields csv_roundtrip_listing)
  from get_cached_data_fresh [OF e, of demo_lib zip_key ?w7 "listing 450000" ?f] a7 r
       get_cached_data_fresh [OF e, of demo_lib zip_key ?w8 "listing 450000" ?f] a8
  show ?thesis by simp
qed

text \<open>
  Claim C10 (caching switched off). For a scraper with \<^verbatim>\<open>cache_enabled=False\<close>:
  \<^verbatim>\<open>get_cached_data\<close> returns the absent result and reads nothing, \<^verbatim>\<open>save_to_cache\<close>
  leaves the world as it is, one \<^verbatim>\<open>scrape()\<close> call changes the world by exactly one more
  invocation of \<^verbatim>\<open>fetch_data\<close>, whatever \<^verbatim>\<open>use_cache\<close> is, and after any sequence of
  \<^verbatim>\<open>scrape()\<close> calls \<^verbatim>\<open>fetch_data\<close> was invoked once per call, the cache files are the ones
  there were, and none was read.
\<close>

theorem cache_disabled_always_fetches:
  assumes "\<not> cache_enabled self"
  shows "get_cached_data L self cache_key w = (Inr None, w)
       \<and> save_to_cache L self data cache_key w = w
       \<and> snd (scrape L self use_cache kwargs w) = w\<lparr>fetch_calls := fetch_calls w + 1\<rparr>
       \<and> fetch_calls (snd (scrape_calls L self cs w)) = fetch_calls w + length cs
       \<and> files (snd (scrape_calls L self cs w)) = files w
       \<and> csv_reads (snd (scrape_calls L self cs w)) = csv_reads w"
  using assms scrape_disabled [OF assms] scrape_calls_disabled [OF assms]
  by (simp add: get_cached_data_def save_to_cache_def)

theorem cache_disabled_always_fetches_witness:
  "get_cached_data demo_lib disabled_scraper zip_key warm_world = (Inr None, warm_world)
   \<and> fetch_calls (snd (scrape_calls demo_lib disabled_scraper
         [(jan_1_2024, True, zip_kwargs), (jan_1_2024, True, zip_kwargs)] warm_world)) = 3
   \<and> files (snd (scrape_calls demo_lib disabled_scraper
         [(jan_1_2024, True, zip_kwargs), (jan_1_2024, True, zip_kwargs)] warm_world)) = files warm_world
   \<and> csv_reads (snd (scrape_calls demo_lib disabled_scraper
         [(jan_1_2024, True, zip_kwargs), (jan_1_2024, True, zip_kwargs)] warm_world)) = []"
proof -
  have d: "\<not> cache_enabled disabled_scraper"
    by (rule disabled_scraper_fields)
  have w: "fetch_calls warm_world = 1" "csv_reads warm_world = []"
    by (simp_all add: warm_world_def)
  from cache_disabled_always_fetches [OF d, of demo_lib zip_key warm_world "listing 0" True zip_kwargs
         "[(jan_1_2024, True, zip_kwargs), (jan_1_2024, True, zip_kwargs)]"] w
  show ?thesis by simp
qed





end
